theory Spec2Isabelle
  imports Main "HOL-Library.Sublist" "HOL-Library.Multiset"
begin

section \<open>Support tickets: the route module \<open>app/routes/app._index.jsx\<close>\<close>

text \<open>
  The module exports a \<open>loader\<close> (the read path, List) and an \<open>action\<close> (one endpoint
  that dispatches on the form field \<open>intent\<close> to Delete, Resolve, Update and Create).
  Both talk to the table \<open>db.ticket\<close> of a Prisma client.
\<close>

subsection \<open>Strings\<close>

text \<open>
  A title is a \<open>string\<close>; its characters are the code units below 256 (Latin-1), on which
  JavaScript's \<open>toLowerCase\<close> maps \<open>A\<close>..\<open>Z\<close> and the accented capitals
  \<open>0xC0\<close>..\<open>0xDE\<close> (without the multiplication sign \<open>0xD7\<close>) to the code unit 32
  above, and leaves every other character alone.
\<close>

definition toLowerCase_char :: "char \<Rightarrow> char" where
  "toLowerCase_char c =
     (let n = (of_char c :: nat)
      in if (65 \<le> n \<and> n \<le> 90) \<or> (192 \<le> n \<and> n \<le> 214) \<or> (216 \<le> n \<and> n \<le> 222)
         then char_of (n + 32) else c)"

definition toLowerCase :: "string \<Rightarrow> string" where
  "toLowerCase s = map toLowerCase_char s"

text \<open>\<open>s.startsWith(k)\<close> and \<open>s.includes(k)\<close>: \<open>k\<close> occurs in \<open>s\<close> as a contiguous run.\<close>

fun startsWith :: "string \<Rightarrow> string \<Rightarrow> bool" where
  "startsWith s [] = True"
| "startsWith [] (k # ks) = False"
| "startsWith (c # cs) (k # ks) = (c = k \<and> startsWith cs ks)"

fun includes_str :: "string \<Rightarrow> string \<Rightarrow> bool" where
  "includes_str [] k = (k = [])"
| "includes_str (c # cs) k = (startsWith (c # cs) k \<or> includes_str cs k)"

subsection \<open>The ticket table\<close>

text \<open>
  A row of the table. \<open>status\<close> and \<open>inquiry\<close> are stored as text, as the source writes
  them (\<open>"OPEN"\<close>, \<open>"FULFILLED"\<close>, \<open>"Sales"\<close>, ...); \<open>description\<close> may be null;
  \<open>createdAt\<close> is a timestamp in milliseconds.
\<close>

record ticket =
  ticket_id :: string
  title :: string
  description :: "string option"
  status :: string
  inquiry :: string
  createdAt :: nat

type_synonym store = "ticket list"

datatype error = NotFound | ValidationError | PersistenceError

text \<open>Whether the round trip to the database succeeds (connectivity).\<close>

datatype link = Up | Down

datatype order = Asc | Desc

text \<open>The values the table's column defaults produce for a new row.\<close>

record generated =
  gen_id :: string
  gen_time :: nat

text \<open>
  The \<open>data\<close> object of a write: a column name is absent, or bound to a value, which may
  be null (\<open>Some None\<close>).
\<close>

type_synonym data = "string \<rightharpoonup> string option"

subsection \<open>The Ticket Store\<close>

text \<open>
  The Store is the Prisma client \<open>db.ticket\<close> imported from \<open>../db.server\<close>, with its
  schema; neither is part of the source file. Section 4.2 of the specification gives its
  contract: \<open>FindAll(orderBy)\<close>, \<open>Insert\<close> assigning id and createdAt,
  \<open>Update(id, partial fields)\<close> and \<open>Delete(id)\<close> answering not-found for an id that
  does not resolve; section 3 makes \<open>title\<close>, \<open>status\<close> and \<open>inquiry\<close> required,
  \<open>description\<close> optional and ids unique; section 7 names the failures. Arguments are
  checked first (a null id or a null required column is a \<open>ValidationError\<close>), then the
  database is contacted (\<open>PersistenceError\<close> when it is down or a unique id is taken),
  then the row is looked up (\<open>NotFound\<close>). A failed operation leaves the table as it
  was.
\<close>

text \<open>Modelled from the spec: the \<open>where: { id }\<close> clause, selecting the row by its id.\<close>

definition has_id :: "string \<Rightarrow> ticket \<Rightarrow> bool" where
  "has_id i t = (ticket_id t = i)"

text \<open>
  Modelled from the spec: the check of a \<open>data\<close> object against the required columns
  of section 3; none of them may be set to null.
\<close>

definition valid_data :: "data \<Rightarrow> bool" where
  "valid_data d =
     (d ''title'' \<noteq> Some None \<and> d ''status'' \<noteq> Some None \<and> d ''inquiry'' \<noteq> Some None)"

text \<open>
  Modelled from the spec: the partial update of section 4.2; the columns bound in
  \<open>data\<close> are replaced and the others kept, among them id and createdAt, which no
  write can change.
\<close>

definition set_fields :: "data \<Rightarrow> ticket \<Rightarrow> ticket" where
  "set_fields d t =
     t\<lparr>title := (case d ''title'' of Some (Some s) \<Rightarrow> s | _ \<Rightarrow> title t),
       description := (case d ''description'' of Some v \<Rightarrow> v | None \<Rightarrow> description t),
       status := (case d ''status'' of Some (Some s) \<Rightarrow> s | _ \<Rightarrow> status t),
       inquiry := (case d ''inquiry'' of Some (Some s) \<Rightarrow> s | _ \<Rightarrow> inquiry t)\<rparr>"

text \<open>
  Modelled from the spec: \<open>FindAll(orderBy = createdAt)\<close>, that is
  \<open>db.ticket.findMany\<close>. Rows with equal timestamps come out in an order the database
  chooses; here it is the reverse of their insertion when descending.
\<close>

definition db_findMany :: "link \<Rightarrow> order \<Rightarrow> store \<Rightarrow> error + ticket list" where
  "db_findMany l ord st =
     (case l of
        Down \<Rightarrow> Inl PersistenceError
      | Up \<Rightarrow> Inr (case ord of
                    Asc \<Rightarrow> sort_key createdAt st
                  | Desc \<Rightarrow> rev (sort_key createdAt st)))"

text \<open>
  Modelled from the spec: \<open>Insert\<close>, that is \<open>db.ticket.create\<close>; the new row gets the
  generated id and timestamp and is appended.
\<close>

definition db_create :: "link \<Rightarrow> generated \<Rightarrow> data \<Rightarrow> store \<Rightarrow> (error + ticket) \<times> store" where
  "db_create l g d st =
     (case (d ''title'', d ''status'', d ''inquiry'') of
        (Some (Some t), Some (Some s), Some (Some q)) \<Rightarrow>
          (case l of
             Down \<Rightarrow> (Inl PersistenceError, st)
           | Up \<Rightarrow>
               if list_ex (has_id (gen_id g)) st then (Inl PersistenceError, st)
               else
                 (let row = \<lparr>ticket_id = gen_id g, title = t,
                             description = (case d ''description'' of Some v \<Rightarrow> v | None \<Rightarrow> None),
                             status = s, inquiry = q, createdAt = gen_time g\<rparr>
                  in (Inr row, st @ [row])))
      | _ \<Rightarrow> (Inl ValidationError, st))"

text \<open>
  Modelled from the spec: \<open>Update(id, partial fields)\<close>, that is \<open>db.ticket.update\<close>.
\<close>

definition db_update :: "link \<Rightarrow> string option \<Rightarrow> data \<Rightarrow> store \<Rightarrow> (error + ticket) \<times> store" where
  "db_update l wid d st =
     (case wid of
        None \<Rightarrow> (Inl ValidationError, st)
      | Some i \<Rightarrow>
          if \<not> valid_data d then (Inl ValidationError, st)
          else
            (case l of
               Down \<Rightarrow> (Inl PersistenceError, st)
             | Up \<Rightarrow>
                 (case find (has_id i) st of
                    None \<Rightarrow> (Inl NotFound, st)
                  | Some t \<Rightarrow>
                      (Inr (set_fields d t),
                       map (\<lambda>r. if has_id i r then set_fields d r else r) st))))"

text \<open>
  Modelled from the spec: \<open>Delete(id)\<close>, that is \<open>db.ticket.delete\<close>; the row is removed
  for good.
\<close>

definition db_delete :: "link \<Rightarrow> string option \<Rightarrow> store \<Rightarrow> (error + ticket) \<times> store" where
  "db_delete l wid st =
     (case wid of
        None \<Rightarrow> (Inl ValidationError, st)
      | Some i \<Rightarrow>
          (case l of
             Down \<Rightarrow> (Inl PersistenceError, st)
           | Up \<Rightarrow>
               (case find (has_id i) st of
                  None \<Rightarrow> (Inl NotFound, st)
                | Some t \<Rightarrow> (Inr t, filter (\<lambda>r. \<not> has_id i r) st))))"

subsection \<open>The loader\<close>

text \<open>
  \<open>loader\<close>: \<open>try { return await db.ticket.findMany({orderBy: {createdAt: 'desc'}}) }
  catch (error) { return [] }\<close>.
\<close>

definition loader :: "link \<Rightarrow> store \<Rightarrow> ticket list" where
  "loader l st =
     (case db_findMany l Desc st of
        Inr tickets \<Rightarrow> tickets
      | Inl e \<Rightarrow> [])"

subsection \<open>The action\<close>

text \<open>
  The form data of a request: \<open>formData.get(name)\<close> is the field's text, or null
  (\<open>None\<close>) when the field is absent (uploaded files are left out). The action
  answers \<open>{ success: true }\<close> or \<open>null\<close>; an awaited database call that throws makes
  the action throw the same error (there is no \<open>try\<close> in it), which is the \<open>Inl\<close> of
  the result.
\<close>

type_synonym formData = "string \<rightharpoonup> string"

datatype response = Success | Null

text \<open>Lines 74 to 83: the inquiry detected from the title.\<close>

definition autoInquiry :: "string \<Rightarrow> string" where
  "autoInquiry title' =
     (let lowerTitle = toLowerCase title'
      in if includes_str lowerTitle ''money'' \<or> includes_str lowerTitle ''price''
            \<or> includes_str lowerTitle ''refund''
         then ''Sales''
         else if includes_str lowerTitle ''error'' \<or> includes_str lowerTitle ''bug''
                 \<or> includes_str lowerTitle ''login'' \<or> includes_str lowerTitle ''fail''
         then ''Technical''
         else if includes_str lowerTitle ''ship'' \<or> includes_str lowerTitle ''order''
                 \<or> includes_str lowerTitle ''delivery''
         then ''Logistics''
         else ''General'')"

text \<open>What the action returns after an awaited write: the write's error, or success.\<close>

definition done_or_throw :: "(error + ticket) \<times> store \<Rightarrow> (error + response) \<times> store" where
  "done_or_throw r =
     (case r of
        (Inl e, st') \<Rightarrow> (Inl e, st')
      | (Inr t, st') \<Rightarrow> (Inr Success, st'))"

definition action :: "link \<Rightarrow> generated \<Rightarrow> formData \<Rightarrow> store \<Rightarrow> (error + response) \<times> store" where
  "action l g form st =
     (let intent = form ''intent'';
          id' = form ''id'';
          title' = form ''title'';
          description' = form ''description''
      in if intent = Some ''delete'' then done_or_throw (db_delete l id' st)
         else if intent = Some ''mark_done'' then
           done_or_throw (db_update l id' [''status'' \<mapsto> Some ''FULFILLED''] st)
         else if intent = Some ''update'' then
           done_or_throw
             (db_update l id' [''title'' \<mapsto> title', ''description'' \<mapsto> description'] st)
         else
           (case title' of
              None \<Rightarrow> (Inr Null, st)
            | Some t \<Rightarrow>
                if t = [] then (Inr Null, st)
                else
                  done_or_throw
                    (db_create l g
                       [''title'' \<mapsto> Some t, ''description'' \<mapsto> description',
                        ''status'' \<mapsto> Some ''OPEN'', ''inquiry'' \<mapsto> Some (autoInquiry t)]
                       st)))"

subsection \<open>Requests in sequence\<close>

text \<open>
  A history of requests, each with the state of the connection and the values the
  database generates when it is served; \<open>run\<close> gives the table after all of them.
\<close>

fun run :: "(link \<times> generated \<times> formData) list \<Rightarrow> store \<Rightarrow> store" where
  "run [] st = st"
| "run ((l, g, form) # reqs) st = run reqs (snd (action l g form st))"

subsection \<open>The specification's words\<close>

text \<open>
  The categorization rule as the specification words it: the title is lower-cased, then
  an ordered list of categories with their keywords is searched, and the first category
  one of whose keywords occurs in the title wins; \<open>General\<close> is the default.
\<close>

definition keyword_sets :: "(string \<times> string list) list" where
  "keyword_sets =
     [(''Sales'', [''money'', ''price'', ''refund'']),
      (''Technical'', [''error'', ''bug'', ''login'', ''fail'']),
      (''Logistics'', [''ship'', ''order'', ''delivery''])]"

fun first_match :: "(string \<times> string list) list \<Rightarrow> string \<Rightarrow> string" where
  "first_match [] s = ''General''"
| "first_match ((category, keywords) # rest) s =
     (if list_ex (includes_str s) keywords then category else first_match rest s)"

definition categorize_spec :: "string \<Rightarrow> string" where
  "categorize_spec t = first_match keyword_sets (toLowerCase t)"

text \<open>
  Trimming, which the specification asks of Create and the source does not do: white
  space (here space, tab, line feed, vertical tab, form feed, carriage return and the
  no-break space) is removed at both ends.
\<close>

definition is_space :: "char \<Rightarrow> bool" where
  "is_space c = (c \<in> set [CHR '' '', CHR 0x09, CHR 0x0A, CHR 0x0B, CHR 0x0C, CHR 0x0D, CHR 0xA0])"

definition trim_spec :: "string \<Rightarrow> string" where
  "trim_spec s = rev (dropWhile is_space (rev (dropWhile is_space s)))"

text \<open>The intents that have a branch of their own in the action.\<close>

definition own_branch :: "string option \<Rightarrow> bool" where
  "own_branch intent =
     (intent = Some ''delete'' \<or> intent = Some ''mark_done'' \<or> intent = Some ''update'')"

text \<open>The ticket with id \<open>i\<close>, when the table has one, is FULFILLED.\<close>

definition fulfilled_at :: "string \<Rightarrow> store \<Rightarrow> bool" where
  "fulfilled_at i st =
     (case find (has_id i) st of None \<Rightarrow> True | Some t \<Rightarrow> status t = ''FULFILLED'')"

text \<open>
  What an Update may change of the row in place \<open>r\<close>, now \<open>r'\<close>: nothing but title and
  description, and nothing at all unless the row has the id \<open>i\<close>.
\<close>

definition same_but_text :: "string \<Rightarrow> ticket \<Rightarrow> ticket \<Rightarrow> bool" where
  "same_but_text i r r' =
     (ticket_id r' = ticket_id r \<and> status r' = status r \<and> inquiry r' = inquiry r
      \<and> createdAt r' = createdAt r \<and> (ticket_id r \<noteq> i \<longrightarrow> r' = r))"

subsection \<open>Sample data\<close>

definition ticket_open :: ticket where
  "ticket_open =
     \<lparr>ticket_id = ''t1'', title = ''Login issue'', description = None, status = ''OPEN'',
      inquiry = ''Technical'', createdAt = 5\<rparr>"

definition ticket_done :: ticket where
  "ticket_done =
     \<lparr>ticket_id = ''t2'', title = ''Where is my order'', description = Some ''late'',
      status = ''FULFILLED'', inquiry = ''Logistics'', createdAt = 7\<rparr>"

definition next_row :: generated where
  "next_row = \<lparr>gen_id = ''t3'', gen_time = 9\<rparr>"

definition later_row :: generated where
  "later_row = \<lparr>gen_id = ''t4'', gen_time = 12\<rparr>"

definition update_form :: "string \<Rightarrow> formData" where
  "update_form i =
     [''intent'' \<mapsto> ''update'', ''id'' \<mapsto> i, ''title'' \<mapsto> ''Refund'', ''description'' \<mapsto> ''x'']"

definition resolve_form :: "string \<Rightarrow> formData" where
  "resolve_form i = [''intent'' \<mapsto> ''mark_done'', ''id'' \<mapsto> i]"

definition create_form :: "string \<Rightarrow> formData" where
  "create_form t = [''intent'' \<mapsto> ''create'', ''title'' \<mapsto> t]"

section \<open>Properties\<close>

subsection \<open>Substrings\<close>

text \<open>\<open>includes_str s k\<close> holds exactly when \<open>k\<close> is a contiguous part of \<open>s\<close>.\<close>

lemma startsWith_iff: "startsWith s k \<longleftrightarrow> (\<exists>q. s = k @ q)"
  by (induction s k rule: startsWith.induct) auto

lemma includes_str_iff: "includes_str s k \<longleftrightarrow> (\<exists>p q. s = p @ k @ q)"
proof (induction s)
  case Nil
  then show ?case by simp
next
  case (Cons c cs)
  show ?case
  proof
    assume "includes_str (c # cs) k"
    then consider "startsWith (c # cs) k" | "includes_str cs k" by auto
    then show "\<exists>p q. c # cs = p @ k @ q"
    proof cases
      case 1
      then obtain q where "c # cs = k @ q" unfolding startsWith_iff by blast
      then have "c # cs = [] @ k @ q" by simp
      then show ?thesis by blast
    next
      case 2
      then obtain p q where "cs = p @ k @ q" using Cons.IH by blast
      then have "c # cs = (c # p) @ k @ q" by simp
      then show ?thesis by blast
    qed
  next
    assume "\<exists>p q. c # cs = p @ k @ q"
    then obtain p q where pq: "c # cs = p @ k @ q" by blast
    show "includes_str (c # cs) k"
    proof (cases p)
      case Nil
      with pq have "startsWith (c # cs) k" unfolding startsWith_iff by auto
      then show ?thesis by simp
    next
      case (Cons a p')
      with pq have "cs = p' @ k @ q" by simp
      then have "includes_str cs k" using Cons.IH by blast
      then show ?thesis by simp
    qed
  qed
qed

subsection \<open>The branches of the action\<close>

lemma action_delete:
  "form ''intent'' = Some ''delete'' \<Longrightarrow>
   action l g form st = done_or_throw (db_delete l (form ''id'') st)"
  by (simp add: action_def)

lemma action_mark_done:
  "form ''intent'' = Some ''mark_done'' \<Longrightarrow>
   action l g form st =
     done_or_throw (db_update l (form ''id'') [''status'' \<mapsto> Some ''FULFILLED''] st)"
  by (simp add: action_def)

lemma action_update:
  "form ''intent'' = Some ''update'' \<Longrightarrow>
   action l g form st =
     done_or_throw
       (db_update l (form ''id'')
          [''title'' \<mapsto> form ''title'', ''description'' \<mapsto> form ''description''] st)"
  by (simp add: action_def)

lemma action_create:
  "\<not> own_branch (form ''intent'') \<Longrightarrow>
   action l g form st =
     (case form ''title'' of
        None \<Rightarrow> (Inr Null, st)
      | Some t \<Rightarrow>
          if t = [] then (Inr Null, st)
          else
            done_or_throw
              (db_create l g
                 [''title'' \<mapsto> Some t, ''description'' \<mapsto> form ''description'',
                  ''status'' \<mapsto> Some ''OPEN'', ''inquiry'' \<mapsto> Some (autoInquiry t)]
                 st))"
  by (simp add: action_def own_branch_def)

lemma create_row:
  assumes "\<not> own_branch (form ''intent'')" and "form ''title'' = Some t" and "t \<noteq> []"
    and "\<not> list_ex (has_id (gen_id g)) st"
  shows "action Up g form st =
     (Inr Success,
      st @ [\<lparr>ticket_id = gen_id g, title = t, description = form ''description'',
              status = ''OPEN'', inquiry = autoInquiry t, createdAt = gen_time g\<rparr>])"
  using assms by (simp add: action_create db_create_def done_or_throw_def Let_def)

lemma set_fields_resolve:
  "set_fields [''status'' \<mapsto> Some ''FULFILLED''] r = r\<lparr>status := ''FULFILLED''\<rparr>"
  by (simp add: set_fields_def)

lemma set_fields_update:
  "set_fields [''title'' \<mapsto> Some s, ''description'' \<mapsto> d] r = r\<lparr>title := s, description := d\<rparr>"
  by (simp add: set_fields_def)

lemma update_rows:
  assumes "form ''intent'' = Some ''update''" and "form ''id'' = Some i"
    and "find (has_id i) st = Some t" and "form ''title'' = Some s"
  shows "action Up g form st =
     (Inr Success,
      map (\<lambda>r. if has_id i r then r\<lparr>title := s, description := form ''description''\<rparr> else r) st)"
  using assms
  by (simp add: action_update db_update_def done_or_throw_def valid_data_def set_fields_update)

lemma resolve_rows:
  assumes "form ''intent'' = Some ''mark_done''" and "form ''id'' = Some i"
    and "find (has_id i) st = Some t"
  shows "action Up g form st =
     (Inr Success, map (\<lambda>r. if has_id i r then r\<lparr>status := ''FULFILLED''\<rparr> else r) st)"
  using assms
  by (simp add: action_mark_done db_update_def done_or_throw_def valid_data_def set_fields_resolve)


subsection \<open>Looking a ticket up after a write\<close>

lemma find_map_same_id:
  assumes "\<And>r. ticket_id (f r) = ticket_id r"
  shows "find (has_id i) (map f st) = map_option f (find (has_id i) st)"
  using assms by (induction st) (simp_all add: has_id_def)

lemma find_filter_other:
  "j \<noteq> i \<Longrightarrow> find (has_id i) (filter (\<lambda>r. \<not> has_id j r) st) = find (has_id i) st"
  by (induction st) (auto simp add: has_id_def)

lemma find_filter_same:
  "find (has_id i) (filter (\<lambda>r. \<not> has_id i r) st) = None"
  by (induction st) (auto simp add: has_id_def)

lemma find_append_other:
  "\<not> has_id i r \<Longrightarrow> find (has_id i) (st @ [r]) = find (has_id i) st"
  by (induction st) auto

lemma ticket_id_set_fields: "ticket_id (set_fields d r) = ticket_id r"
  by (simp add: set_fields_def)

lemma createdAt_set_fields: "createdAt (set_fields d r) = createdAt r"
  by (simp add: set_fields_def)

text \<open>The table after a write, whatever its outcome.\<close>

lemma snd_done_or_throw: "snd (done_or_throw r) = snd r"
  by (cases r) (simp add: done_or_throw_def split: sum.splits)

lemma db_update_table:
  "snd (db_update l wid d st) = st \<or>
   (\<exists>i. wid = Some i \<and> snd (db_update l wid d st) =
      map (\<lambda>r. if has_id i r then set_fields d r else r) st)"
  by (simp add: db_update_def split: option.splits link.splits)

lemma db_delete_table:
  "snd (db_delete l wid st) = st \<or>
   (\<exists>i. wid = Some i \<and> snd (db_delete l wid st) = filter (\<lambda>r. \<not> has_id i r) st)"
  by (simp add: db_delete_def split: option.splits link.splits)

lemma db_create_table:
  "snd (db_create l g d st) = st \<or>
   (\<exists>row. ticket_id row = gen_id g \<and> d ''status'' = Some (Some (status row))
      \<and> snd (db_create l g d st) = st @ [row])"
  by (auto simp add: db_create_def Let_def split: option.splits link.splits)


subsection \<open>A FULFILLED ticket stays FULFILLED\<close>

lemma fulfilled_at_map:
  assumes "fulfilled_at i st"
    and "\<And>r. ticket_id (f r) = ticket_id r"
    and "\<And>r. status r = ''FULFILLED'' \<Longrightarrow> status (f r) = ''FULFILLED''"
  shows "fulfilled_at i (map f st)"
  using assms by (auto simp add: fulfilled_at_def find_map_same_id split: option.splits)

lemma fulfilled_at_update:
  assumes "fulfilled_at i st"
    and "d ''status'' = None \<or> d ''status'' = Some (Some ''FULFILLED'')"
  shows "fulfilled_at i (snd (db_update l wid d st))"
proof -
  have "fulfilled_at i (map (\<lambda>r. if has_id j r then set_fields d r else r) st)" for j
    using assms by (intro fulfilled_at_map) (auto simp add: set_fields_def)
  then show ?thesis
    using db_update_table [of l wid d st] assms(1) by auto
qed

lemma fulfilled_at_delete:
  assumes "fulfilled_at i st"
  shows "fulfilled_at i (snd (db_delete l wid st))"
proof -
  have "fulfilled_at i (filter (\<lambda>r. \<not> has_id j r) st)" for j
  proof (cases "j = i")
    case True
    then show ?thesis by (simp add: fulfilled_at_def find_filter_same)
  next
    case False
    then show ?thesis using assms by (simp add: fulfilled_at_def find_filter_other)
  qed
  then show ?thesis
    using db_delete_table [of l wid st] assms by auto
qed

lemma fulfilled_at_create:
  assumes "fulfilled_at i st" and "gen_id g \<noteq> i"
  shows "fulfilled_at i (snd (db_create l g d st))"
proof -
  have "fulfilled_at i (st @ [row])" if "ticket_id row = gen_id g" for row
    using that assms by (simp add: fulfilled_at_def find_append_other has_id_def)
  then show ?thesis
    using db_create_table [of l g d st] assms(1) by auto
qed

lemma fulfilled_at_action:
  assumes "fulfilled_at i st" and "gen_id g \<noteq> i"
  shows "fulfilled_at i (snd (action l g form st))"
proof -
  consider (del) "form ''intent'' = Some ''delete''"
    | (res) "form ''intent'' = Some ''mark_done''"
    | (upd) "form ''intent'' = Some ''update''"
    | (cre) "\<not> own_branch (form ''intent'')"
    by (auto simp add: own_branch_def)
  then show ?thesis
  proof cases
    case del
    then show ?thesis
      using assms by (simp add: action_delete snd_done_or_throw fulfilled_at_delete)
  next
    case res
    then show ?thesis
      using assms by (simp add: action_mark_done snd_done_or_throw fulfilled_at_update)
  next
    case upd
    then show ?thesis
      using assms by (simp add: action_update snd_done_or_throw fulfilled_at_update)
  next
    case cre
    then show ?thesis
      using assms
      by (simp add: action_create snd_done_or_throw fulfilled_at_create split: option.splits)
  qed
qed

lemma fulfilled_at_run:
  assumes "fulfilled_at i st" and "\<forall>(l, g, form) \<in> set reqs. gen_id g \<noteq> i"
  shows "fulfilled_at i (run reqs st)"
  using assms
proof (induction reqs arbitrary: st)
  case Nil
  then show ?case by simp
next
  case (Cons q reqs)
  obtain l g form where q: "q = (l, g, form)" by (cases q)
  with Cons.prems have "gen_id g \<noteq> i" by simp
  then have "fulfilled_at i (snd (action l g form st))"
    using Cons.prems(1) by (rule fulfilled_at_action [rotated])
  moreover have "\<forall>(l, g, form) \<in> set reqs. gen_id g \<noteq> i"
    using Cons.prems(2) by simp
  ultimately show ?case
    using Cons.IH q by simp
qed


lemma autoInquiry_spec: "autoInquiry t = categorize_spec t"
  by (simp add: autoInquiry_def categorize_spec_def keyword_sets_def Let_def)

subsection \<open>Categorization\<close>

text \<open>
  C1. The inquiry computed at Create is the specification's rule: the title is
  lower-cased and the keyword sets are tried in the order Sales, Technical, Logistics,
  the first set with a keyword occurring in the title wins and General is the default.
  A title with a Sales keyword is Sales whatever else it contains, Create stores that
  category in the new row, and \<open>Refund my order please\<close> is Sales.
\<close>

theorem create_inquiry_by_priority:
  "autoInquiry t = categorize_spec t
   \<and> (list_ex (includes_str (toLowerCase t)) [''money'', ''price'', ''refund'']
        \<longrightarrow> autoInquiry t = ''Sales'')
   \<and> (\<not> own_branch (form ''intent'') \<and> form ''title'' = Some t \<and> t \<noteq> []
        \<and> \<not> list_ex (has_id (gen_id g)) st
        \<longrightarrow> action Up g form st =
             (Inr Success,
              st @ [\<lparr>ticket_id = gen_id g, title = t, description = form ''description'',
                      status = ''OPEN'', inquiry = categorize_spec t,
                      createdAt = gen_time g\<rparr>]))
   \<and> autoInquiry ''Refund my order please'' = ''Sales''"
proof (intro conjI impI)
  show "autoInquiry t = categorize_spec t"
    by (rule autoInquiry_spec)
  show "autoInquiry t = ''Sales''"
    if "list_ex (includes_str (toLowerCase t)) [''money'', ''price'', ''refund'']"
    using that by (simp add: autoInquiry_def Let_def)
  show "action Up g form st =
     (Inr Success,
      st @ [\<lparr>ticket_id = gen_id g, title = t, description = form ''description'',
              status = ''OPEN'', inquiry = categorize_spec t, createdAt = gen_time g\<rparr>])"
    if "\<not> own_branch (form ''intent'') \<and> form ''title'' = Some t \<and> t \<noteq> []
        \<and> \<not> list_ex (has_id (gen_id g)) st"
    using that create_row [of form t g st] by (simp add: autoInquiry_spec)
  show "autoInquiry ''Refund my order please'' = ''Sales''"
    by code_simp
qed

theorem create_inquiry_by_priority_witness:
  "list_ex (includes_str (toLowerCase ''Refund my order please'')) [''money'', ''price'', ''refund'']
   \<and> categorize_spec ''Refund my order please'' = ''Sales''
   \<and> action Up \<lparr>gen_id = ''t2'', gen_time = 20\<rparr>
        [''intent'' \<mapsto> ''create'', ''title'' \<mapsto> ''Refund my order please''] [] =
      (Inr Success,
       [\<lparr>ticket_id = ''t2'', title = ''Refund my order please'', description = None,
          status = ''OPEN'', inquiry = ''Sales'', createdAt = 20\<rparr>])"
proof -
  have h1: "list_ex (includes_str (toLowerCase ''Refund my order please''))
              [''money'', ''price'', ''refund'']"
    by code_simp
  have h2: "\<not> own_branch ([''intent'' \<mapsto> ''create'', ''title'' \<mapsto> ''Refund my order please'']
              ''intent'')"
    by code_simp
  have h3: "\<not> list_ex (has_id (gen_id \<lparr>gen_id = ''t2'', gen_time = 20\<rparr>)) []"
    by simp
  show ?thesis
    using h1 h2 h3
      create_inquiry_by_priority [where t = "''Refund my order please''"
        and form = "[''intent'' \<mapsto> ''create'', ''title'' \<mapsto> ''Refund my order please'']"
        and g = "\<lparr>gen_id = ''t2'', gen_time = 20\<rparr>" and st = "[]"]
    by auto
qed

text \<open>
  C9. The categorization is a function of the title alone, defined on every title, and
  its value is one of the four categories, which are pairwise different; the same holds
  of the rule in the specification's words.
\<close>

theorem categorization_total:
  "autoInquiry t \<in> {''Sales'', ''Technical'', ''Logistics'', ''General''}
   \<and> distinct [''Sales'', ''Technical'', ''Logistics'', ''General'']
   \<and> categorize_spec t \<in> set (map fst keyword_sets) \<union> {''General''}"
proof (intro conjI)
  show "autoInquiry t \<in> {''Sales'', ''Technical'', ''Logistics'', ''General''}"
    by (simp add: autoInquiry_def Let_def)
  show "distinct [''Sales'', ''Technical'', ''Logistics'', ''General'']"
    by simp
  show "categorize_spec t \<in> set (map fst keyword_sets) \<union> {''General''}"
    by (simp add: categorize_spec_def keyword_sets_def)
qed

subsection \<open>Create\<close>

text \<open>
  C2, as the specification states it, fails: a title of three spaces is empty after
  trimming, and Create persists a ticket for it.
\<close>

theorem create_blank_title_persisted:
  "trim_spec ''   '' = []
   \<and> action Up \<lparr>gen_id = ''t1'', gen_time = 10\<rparr>
        [''intent'' \<mapsto> ''create'', ''title'' \<mapsto> ''   '', ''description'' \<mapsto> ''x''] [] =
      (Inr Success,
       [\<lparr>ticket_id = ''t1'', title = ''   '', description = Some ''x'', status = ''OPEN'',
          inquiry = ''General'', createdAt = 10\<rparr>])"
  by code_simp

text \<open>
  C2, amended. A Create whose title is absent or the empty string (the title is taken as
  it is, not trimmed) is a no-op: the table is unchanged and the answer is \<open>null\<close>,
  not an error, whatever the state of the connection.
\<close>

theorem create_empty_title_noop:
  assumes "\<not> own_branch (form ''intent'')"
    and "form ''title'' = None \<or> form ''title'' = Some []"
  shows "action l g form st = (Inr Null, st)"
  using assms by (auto simp add: action_create)

theorem create_empty_title_noop_witness:
  "\<not> own_branch ([''intent'' \<mapsto> ''create'', ''title'' \<mapsto> ''''] ''intent'')
   \<and> [''intent'' \<mapsto> ''create'', ''title'' \<mapsto> ''''] ''title'' = Some []
   \<and> action Up \<lparr>gen_id = ''t2'', gen_time = 10\<rparr> [''intent'' \<mapsto> ''create'', ''title'' \<mapsto> '''']
        [\<lparr>ticket_id = ''t1'', title = ''Login issue'', description = None, status = ''OPEN'',
           inquiry = ''Technical'', createdAt = 5\<rparr>] =
      (Inr Null,
       [\<lparr>ticket_id = ''t1'', title = ''Login issue'', description = None, status = ''OPEN'',
          inquiry = ''Technical'', createdAt = 5\<rparr>])"
proof -
  have h1: "\<not> own_branch ([''intent'' \<mapsto> ''create'', ''title'' \<mapsto> ''''] ''intent'')"
    by code_simp
  have h2: "[''intent'' \<mapsto> ''create'', ''title'' \<mapsto> ''''] ''title'' = Some []"
    by simp
  show ?thesis
    using h1 h2
      create_empty_title_noop [where form = "[''intent'' \<mapsto> ''create'', ''title'' \<mapsto> '''']"
        and l = Up and g = "\<lparr>gen_id = ''t2'', gen_time = 10\<rparr>"
        and st = "[\<lparr>ticket_id = ''t1'', title = ''Login issue'', description = None,
          status = ''OPEN'', inquiry = ''Technical'', createdAt = 5\<rparr>]"]
    by blast
qed

text \<open>
  C10. A request whose intent is none of \<open>delete\<close>, \<open>mark_done\<close> and \<open>update\<close>
  (an unknown one, or none at all) is served exactly as if its intent were \<open>create\<close>;
  with a non-empty title a new OPEN ticket with the derived inquiry is appended.
\<close>

theorem unknown_intent_creates:
  assumes "\<not> own_branch (form ''intent'')"
  shows "action l g form st = action l g (form(''intent'' \<mapsto> ''create'')) st
     \<and> (form ''title'' = Some t \<and> t \<noteq> [] \<and> \<not> list_ex (has_id (gen_id g)) st
          \<longrightarrow> action Up g form st =
               (Inr Success,
                st @ [\<lparr>ticket_id = gen_id g, title = t, description = form ''description'',
                        status = ''OPEN'', inquiry = autoInquiry t,
                        createdAt = gen_time g\<rparr>]))"
proof (intro conjI impI)
  have c: "\<not> own_branch ((form(''intent'' \<mapsto> ''create'')) ''intent'')"
    by (simp add: own_branch_def)
  show "action l g form st = action l g (form(''intent'' \<mapsto> ''create'')) st"
    using assms c
      action_create [where form = form and l = l and g = g and st = st]
      action_create [where form = "form(''intent'' \<mapsto> ''create'')" and l = l and g = g
        and st = st]
    by (simp split: option.splits)
  show "action Up g form st =
     (Inr Success,
      st @ [\<lparr>ticket_id = gen_id g, title = t, description = form ''description'',
              status = ''OPEN'', inquiry = autoInquiry t, createdAt = gen_time g\<rparr>])"
    if "form ''title'' = Some t \<and> t \<noteq> [] \<and> \<not> list_ex (has_id (gen_id g)) st"
    using that assms by (simp add: create_row)
qed

theorem unknown_intent_creates_witness:
  "\<not> own_branch ([''intent'' \<mapsto> ''archive'', ''title'' \<mapsto> ''Printer bug''] ''intent'')
   \<and> action Up \<lparr>gen_id = ''t9'', gen_time = 30\<rparr>
        [''intent'' \<mapsto> ''archive'', ''title'' \<mapsto> ''Printer bug''] [] =
      action Up \<lparr>gen_id = ''t9'', gen_time = 30\<rparr>
        ([''intent'' \<mapsto> ''archive'', ''title'' \<mapsto> ''Printer bug''](''intent'' \<mapsto> ''create'')) []
   \<and> action Up \<lparr>gen_id = ''t9'', gen_time = 30\<rparr>
        [''intent'' \<mapsto> ''archive'', ''title'' \<mapsto> ''Printer bug''] [] =
      (Inr Success,
       [\<lparr>ticket_id = ''t9'', title = ''Printer bug'', description = None, status = ''OPEN'',
          inquiry = ''Technical'', createdAt = 30\<rparr>])"
proof -
  have h1: "\<not> own_branch ([''intent'' \<mapsto> ''archive'', ''title'' \<mapsto> ''Printer bug''] ''intent'')"
    by code_simp
  have h2: "autoInquiry ''Printer bug'' = ''Technical''"
    by code_simp
  show ?thesis
    using h1 h2
      unknown_intent_creates [where t = "''Printer bug''"
        and form = "[''intent'' \<mapsto> ''archive'', ''title'' \<mapsto> ''Printer bug'']"
        and g = "\<lparr>gen_id = ''t9'', gen_time = 30\<rparr>" and st = "[]" and l = Up]
    by auto
qed

subsection \<open>Update\<close>

text \<open>
  C3. An Update with the empty title succeeds and leaves a persisted ticket whose title
  is empty: the check \<open>if (!title) return null\<close> guards Create only.
\<close>

theorem update_empty_title_persisted:
  "action Up \<lparr>gen_id = ''t2'', gen_time = 10\<rparr>
     [''intent'' \<mapsto> ''update'', ''id'' \<mapsto> ''t1'', ''title'' \<mapsto> '''', ''description'' \<mapsto> ''x'']
     [\<lparr>ticket_id = ''t1'', title = ''Login issue'', description = None, status = ''OPEN'',
        inquiry = ''Technical'', createdAt = 5\<rparr>] =
   (Inr Success,
    [\<lparr>ticket_id = ''t1'', title = '''', description = Some ''x'', status = ''OPEN'',
       inquiry = ''Technical'', createdAt = 5\<rparr>])"
  by code_simp

text \<open>
  Every other request keeps the titles of the table non-empty: only an Update whose title
  is the empty string can store one.
\<close>

lemma titles_kept_by_other_requests:
  assumes "\<forall>r \<in> set st. title r \<noteq> []"
    and "form ''intent'' = Some ''update'' \<longrightarrow> form ''title'' \<noteq> Some []"
  shows "\<forall>r \<in> set (snd (action l g form st)). title r \<noteq> []"
proof -
  consider (del) "form ''intent'' = Some ''delete''"
    | (res) "form ''intent'' = Some ''mark_done''"
    | (upd) "form ''intent'' = Some ''update''"
    | (cre) "\<not> own_branch (form ''intent'')"
    by (auto simp add: own_branch_def)
  then show ?thesis
  proof cases
    case del
    then show ?thesis
      using assms(1) db_delete_table [of l "form ''id''" st]
      by (auto simp add: action_delete snd_done_or_throw)
  next
    case res
    let ?d = "[''status'' \<mapsto> Some ''FULFILLED'']"
    have "title (set_fields ?d r) = title r" for r
      by (simp add: set_fields_def)
    then show ?thesis
      using res assms(1) db_update_table [of l "form ''id''" ?d st]
      by (auto simp add: action_mark_done snd_done_or_throw)
  next
    case upd
    let ?d = "[''title'' \<mapsto> form ''title'', ''description'' \<mapsto> form ''description'']"
    have "title (set_fields ?d r) \<noteq> []" if "title r \<noteq> []" for r
      using that upd assms(2) by (cases "form ''title''") (simp_all add: set_fields_def)
    then show ?thesis
      using upd assms(1) db_update_table [of l "form ''id''" ?d st]
      by (auto simp add: action_update snd_done_or_throw)
  next
    case cre
    show ?thesis
    proof (cases "form ''title''")
      case None
      then show ?thesis
        using cre assms(1) by (simp add: action_create)
    next
      case (Some t)
      then show ?thesis
        using cre assms(1)
        by (auto simp add: action_create done_or_throw_def db_create_def Let_def
            split: link.splits if_splits)
    qed
  qed
qed

lemma update_frame:
  assumes "form ''intent'' = Some ''update''" and "form ''id'' = Some i"
  shows "list_all2 (same_but_text i) st (snd (action l g form st))"
proof -
  let ?d = "[''title'' \<mapsto> form ''title'', ''description'' \<mapsto> form ''description'']"
  have "list_all2 (same_but_text i) st (map (\<lambda>r. if has_id i r then set_fields ?d r else r) st)"
    by (simp add: list_all2_map2 list_all2_same same_but_text_def set_fields_def has_id_def)
  moreover have "list_all2 (same_but_text i) st st"
    by (simp add: list_all2_same same_but_text_def)
  ultimately show ?thesis
    using assms db_update_table [of l "Some i" ?d st]
    by (auto simp add: action_update snd_done_or_throw)
qed

text \<open>
  C4. An Update of an existing ticket replaces its title and description and nothing
  else: the row keeps id, status, inquiry and createdAt, and every row with another id is
  the same row as before. The last conjunct holds whatever the outcome of the request.
\<close>

theorem update_changes_title_description_only:
  assumes "form ''intent'' = Some ''update''" and "form ''id'' = Some i"
    and "find (has_id i) st = Some t"
  shows "(form ''title'' = Some s \<longrightarrow>
            action Up g form st =
              (Inr Success,
               map (\<lambda>r. if has_id i r then r\<lparr>title := s, description := form ''description''\<rparr>
                        else r) st)
            \<and> find (has_id i) (snd (action Up g form st)) =
                Some (t\<lparr>title := s, description := form ''description''\<rparr>))
     \<and> list_all2 (same_but_text i) st (snd (action l g form st))"
proof (intro conjI impI)
  assume s: "form ''title'' = Some s"
  let ?f = "\<lambda>r. if has_id i r then r\<lparr>title := s, description := form ''description''\<rparr> else r"
  show a: "action Up g form st = (Inr Success, map ?f st)"
    using assms s by (rule update_rows)
  have "find (has_id i) (map ?f st) = map_option ?f (find (has_id i) st)"
    by (rule find_map_same_id) simp
  moreover have "has_id i t"
    using assms(3) by (auto simp add: find_Some_iff)
  ultimately show "find (has_id i) (snd (action Up g form st)) =
      Some (t\<lparr>title := s, description := form ''description''\<rparr>)"
    using a assms(3) by simp
next
  show "list_all2 (same_but_text i) st (snd (action l g form st))"
    using assms(1,2) by (rule update_frame)
qed

theorem update_changes_title_description_only_witness:
  "update_form ''t1'' ''intent'' = Some ''update''
   \<and> update_form ''t1'' ''id'' = Some ''t1''
   \<and> find (has_id ''t1'') [ticket_open, ticket_done] = Some ticket_open
   \<and> action Up next_row (update_form ''t1'') [ticket_open, ticket_done] =
      (Inr Success,
       [\<lparr>ticket_id = ''t1'', title = ''Refund'', description = Some ''x'', status = ''OPEN'',
          inquiry = ''Technical'', createdAt = 5\<rparr>,
        ticket_done])
   \<and> list_all2 (same_but_text ''t1'') [ticket_open, ticket_done]
       (snd (action Down next_row (update_form ''t1'') [ticket_open, ticket_done]))"
proof -
  have h1: "update_form ''t1'' ''intent'' = Some ''update''"
    by (simp add: update_form_def)
  have h2: "update_form ''t1'' ''id'' = Some ''t1''"
    by (simp add: update_form_def)
  have h3: "find (has_id ''t1'') [ticket_open, ticket_done] = Some ticket_open"
    by (simp add: has_id_def ticket_open_def)
  have h4: "update_form ''t1'' ''title'' = Some ''Refund''"
    by (simp add: update_form_def)
  have h5: "update_form ''t1'' ''description'' = Some ''x''"
    by (simp add: update_form_def)
  have h6: "has_id ''t1'' ticket_open \<and> \<not> has_id ''t1'' ticket_done"
    by (simp add: has_id_def ticket_open_def ticket_done_def)
  have h7: "ticket_open\<lparr>title := ''Refund'', description := Some ''x''\<rparr> =
      \<lparr>ticket_id = ''t1'', title = ''Refund'', description = Some ''x'', status = ''OPEN'',
        inquiry = ''Technical'', createdAt = 5\<rparr>"
    by (simp add: ticket_open_def)
  show ?thesis
    using h1 h2 h3 h4 h5 h6 h7
      update_changes_title_description_only [where form = "update_form ''t1''"
        and i = "''t1''" and s = "''Refund''" and g = next_row and l = Down
        and t = ticket_open and st = "[ticket_open, ticket_done]"]
    by simp
qed

text \<open>
  C8. When the id resolves to no ticket, Update and Resolve fail with \<open>NotFound\<close>, the
  action passes the failure on, and the table is unchanged (when the database is down
  the failure is that of the connection, and the table is unchanged as well).
\<close>

theorem update_resolve_not_found:
  assumes "form ''id'' = Some i" and "find (has_id i) st = None"
    and "form ''intent'' = Some ''mark_done''
         \<or> (form ''intent'' = Some ''update'' \<and> (\<exists>s. form ''title'' = Some s))"
  shows "action Up g form st = (Inl NotFound, st)
     \<and> (\<forall>l. \<exists>e. action l g form st = (Inl e, st))"
proof -
  have "action l g form st =
      (case l of Up \<Rightarrow> (Inl NotFound, st) | Down \<Rightarrow> (Inl PersistenceError, st))" for l
    using assms
    by (auto simp add: action_mark_done action_update db_update_def done_or_throw_def
        valid_data_def split: link.splits)
  then show ?thesis
    by (auto split: link.splits)
qed

theorem update_resolve_not_found_witness:
  "update_form ''t1'' ''id'' = Some ''t1''
   \<and> find (has_id ''t1'') [ticket_done] = None
   \<and> update_form ''t1'' ''intent'' = Some ''update''
   \<and> update_form ''t1'' ''title'' = Some ''Refund''
   \<and> action Up next_row (update_form ''t1'') [ticket_done] = (Inl NotFound, [ticket_done])
   \<and> (\<exists>e. action Down next_row (update_form ''t1'') [ticket_done] = (Inl e, [ticket_done]))"
proof -
  have h1: "update_form ''t1'' ''id'' = Some ''t1''"
    by (simp add: update_form_def)
  have h2: "find (has_id ''t1'') [ticket_done] = None"
    by (simp add: has_id_def ticket_done_def)
  have h3: "update_form ''t1'' ''intent'' = Some ''update''"
    by (simp add: update_form_def)
  have h4: "update_form ''t1'' ''title'' = Some ''Refund''"
    by (simp add: update_form_def)
  show ?thesis
    using h1 h2 h3 h4
      update_resolve_not_found [where form = "update_form ''t1''" and i = "''t1''"
        and g = next_row and st = "[ticket_done]"]
    by blast
qed

subsection \<open>Resolve\<close>

text \<open>
  C5. Resolve of an existing ticket sets its status to FULFILLED, whatever it was, and
  succeeds; a second Resolve succeeds and changes nothing. A FULFILLED ticket is still
  FULFILLED after any sequence of requests in which it is found again, as long as the
  database does not hand its id out a second time.
\<close>

theorem resolve_fulfilled_forever:
  "(form ''intent'' = Some ''mark_done'' \<and> form ''id'' = Some i \<and> find (has_id i) st = Some t
      \<longrightarrow> action Up g form st =
             (Inr Success, map (\<lambda>r. if has_id i r then r\<lparr>status := ''FULFILLED''\<rparr> else r) st)
         \<and> find (has_id i) (snd (action Up g form st)) = Some (t\<lparr>status := ''FULFILLED''\<rparr>)
         \<and> action Up g' form (snd (action Up g form st)) =
             (Inr Success, snd (action Up g form st)))
   \<and> (find (has_id i) st = Some t \<and> status t = ''FULFILLED''
        \<and> (\<forall>(l, g, form) \<in> set reqs. gen_id g \<noteq> i)
        \<and> find (has_id i) (run reqs st) = Some t'
      \<longrightarrow> status t' = ''FULFILLED'')"
proof (intro conjI impI)
  let ?f = "\<lambda>r. if has_id i r then r\<lparr>status := ''FULFILLED''\<rparr> else r"
  assume a: "form ''intent'' = Some ''mark_done'' \<and> form ''id'' = Some i
      \<and> find (has_id i) st = Some t"
  then show first: "action Up g form st = (Inr Success, map ?f st)"
    by (simp add: resolve_rows)
  have "find (has_id i) (map ?f st) = map_option ?f (find (has_id i) st)"
    by (rule find_map_same_id) simp
  moreover have "has_id i t"
    using a by (auto simp add: find_Some_iff)
  ultimately have found: "find (has_id i) (map ?f st) = Some (t\<lparr>status := ''FULFILLED''\<rparr>)"
    using a by simp
  then show "find (has_id i) (snd (action Up g form st)) = Some (t\<lparr>status := ''FULFILLED''\<rparr>)"
    using first by simp
  have "action Up g' form (map ?f st) = (Inr Success, map ?f (map ?f st))"
    using a found by (simp add: resolve_rows)
  moreover have "map ?f (map ?f st) = map ?f st"
    by (simp add: has_id_def)
  ultimately show "action Up g' form (snd (action Up g form st)) =
      (Inr Success, snd (action Up g form st))"
    using first by simp
next
  assume b: "find (has_id i) st = Some t \<and> status t = ''FULFILLED''
      \<and> (\<forall>(l, g, form) \<in> set reqs. gen_id g \<noteq> i)
      \<and> find (has_id i) (run reqs st) = Some t'"
  then have "fulfilled_at i st"
    by (simp add: fulfilled_at_def)
  then have "fulfilled_at i (run reqs st)"
    using b by (intro fulfilled_at_run) simp_all
  then show "status t' = ''FULFILLED''"
    using b by (simp add: fulfilled_at_def)
qed

theorem resolve_fulfilled_forever_witness:
  "resolve_form ''t1'' ''intent'' = Some ''mark_done''
   \<and> resolve_form ''t1'' ''id'' = Some ''t1''
   \<and> find (has_id ''t1'') [ticket_open, ticket_done] = Some ticket_open
   \<and> action Up next_row (resolve_form ''t1'') [ticket_open, ticket_done] =
      (Inr Success, [ticket_open\<lparr>status := ''FULFILLED''\<rparr>, ticket_done])
   \<and> action Up later_row (resolve_form ''t1'')
        [ticket_open\<lparr>status := ''FULFILLED''\<rparr>, ticket_done] =
      (Inr Success, [ticket_open\<lparr>status := ''FULFILLED''\<rparr>, ticket_done])
   \<and> find (has_id ''t2'') [ticket_open, ticket_done] = Some ticket_done
   \<and> status ticket_done = ''FULFILLED''
   \<and> list_all (\<lambda>(l, g, form). gen_id g \<noteq> ''t2'')
        [(Up, next_row, update_form ''t2''),
          (Up, later_row, create_form ''Refund my order please''),
          (Up, later_row, resolve_form ''t2''), (Up, later_row, [''intent'' \<mapsto> ''delete'', ''id'' \<mapsto> ''t1''])]
   \<and> find (has_id ''t2'')
        (run [(Up, next_row, update_form ''t2''),
          (Up, later_row, create_form ''Refund my order please''),
          (Up, later_row, resolve_form ''t2''), (Up, later_row, [''intent'' \<mapsto> ''delete'', ''id'' \<mapsto> ''t1''])]
          [ticket_open, ticket_done]) =
       Some (ticket_done\<lparr>title := ''Refund'', description := Some ''x''\<rparr>)
   \<and> status (ticket_done\<lparr>title := ''Refund'', description := Some ''x''\<rparr>) = ''FULFILLED''"
proof -
  let ?reqs = "[(Up, next_row, update_form ''t2''),
          (Up, later_row, create_form ''Refund my order please''),
          (Up, later_row, resolve_form ''t2''), (Up, later_row, [''intent'' \<mapsto> ''delete'', ''id'' \<mapsto> ''t1''])]"
  have h1: "resolve_form ''t1'' ''intent'' = Some ''mark_done''"
    by (simp add: resolve_form_def)
  have h2: "resolve_form ''t1'' ''id'' = Some ''t1''"
    by (simp add: resolve_form_def)
  have h3: "find (has_id ''t1'') [ticket_open, ticket_done] = Some ticket_open"
    by (simp add: has_id_def ticket_open_def)
  have h4: "has_id ''t1'' ticket_open \<and> \<not> has_id ''t1'' ticket_done"
    by (simp add: has_id_def ticket_open_def ticket_done_def)
  have h5: "find (has_id ''t2'') [ticket_open, ticket_done] = Some ticket_done"
    by (simp add: has_id_def ticket_open_def ticket_done_def)
  have h6: "status ticket_done = ''FULFILLED''"
    by (simp add: ticket_done_def)
  have h7: "\<forall>(l, g, form) \<in> set ?reqs. gen_id g \<noteq> ''t2''"
    by (simp add: next_row_def later_row_def)
  have h7': "list_all (\<lambda>(l, g, form). gen_id g \<noteq> ''t2'') ?reqs"
    by (simp add: next_row_def later_row_def)
  have h8: "find (has_id ''t2'') (run ?reqs [ticket_open, ticket_done]) =
      Some (ticket_done\<lparr>title := ''Refund'', description := Some ''x''\<rparr>)"
    by code_simp
  let ?f = "\<lambda>r. if has_id ''t1'' r then r\<lparr>status := ''FULFILLED''\<rparr> else r"
  let ?st' = "snd (action Up next_row (resolve_form ''t1'') [ticket_open, ticket_done])"
  note first = resolve_fulfilled_forever [where form = "resolve_form ''t1''" and i = "''t1''"
      and st = "[ticket_open, ticket_done]" and t = ticket_open and g = next_row
      and g' = later_row and reqs = "[]" and t' = ticket_open]
  note later = resolve_fulfilled_forever [where form = "resolve_form ''t2''" and i = "''t2''"
      and st = "[ticket_open, ticket_done]" and t = ticket_done and g = next_row
      and g' = later_row and reqs = ?reqs
      and t' = "ticket_done\<lparr>title := ''Refund'', description := Some ''x''\<rparr>"]
  have a1: "action Up next_row (resolve_form ''t1'') [ticket_open, ticket_done] =
      (Inr Success, map ?f [ticket_open, ticket_done])"
    using first h1 h2 h3 by blast
  have a2: "action Up later_row (resolve_form ''t1'') ?st' = (Inr Success, ?st')"
    using first h1 h2 h3 by blast
  have a3: "map ?f [ticket_open, ticket_done] =
      [ticket_open\<lparr>status := ''FULFILLED''\<rparr>, ticket_done]"
    using h4 by simp
  have a4: "?st' = [ticket_open\<lparr>status := ''FULFILLED''\<rparr>, ticket_done]"
    using a1 a3 by simp
  have a5: "status (ticket_done\<lparr>title := ''Refund'', description := Some ''x''\<rparr>) =
      ''FULFILLED''"
    using later h5 h6 h7 h8 by blast
  show ?thesis
    using h1 h2 h3 h5 h6 h7' h8 a1 a2 a3 a4 a5 by (simp only: simp_thms)
qed

subsection \<open>List\<close>

lemma loader_Up: "loader Up st = rev (sort_key createdAt st)"
  by (simp add: loader_def db_findMany_def)

text \<open>
  C6. When the read succeeds, the loader returns all rows of the table, each as often as
  it is there, in descending order of createdAt; after two Creates on the empty table,
  the second at a later time, it returns the second ticket before the first.
\<close>

theorem list_newest_first:
  "mset (loader Up st) = mset st
   \<and> sorted_wrt (\<lambda>a b. createdAt b \<le> createdAt a) (loader Up st)
   \<and> (\<not> own_branch (f1 ''intent'') \<and> \<not> own_branch (f2 ''intent'')
        \<and> f1 ''title'' = Some s1 \<and> s1 \<noteq> [] \<and> f2 ''title'' = Some s2 \<and> s2 \<noteq> []
        \<and> gen_id g1 \<noteq> gen_id g2 \<and> gen_time g1 < gen_time g2
      \<longrightarrow> loader Up (run [(Up, g1, f1), (Up, g2, f2)] []) =
           [\<lparr>ticket_id = gen_id g2, title = s2, description = f2 ''description'',
              status = ''OPEN'', inquiry = autoInquiry s2, createdAt = gen_time g2\<rparr>,
            \<lparr>ticket_id = gen_id g1, title = s1, description = f1 ''description'',
              status = ''OPEN'', inquiry = autoInquiry s1, createdAt = gen_time g1\<rparr>])"
proof (intro conjI impI)
  show "mset (loader Up st) = mset st"
    by (simp add: loader_Up)
  have "sorted (map createdAt (sort_key createdAt st))"
    by (rule sorted_sort_key)
  then show "sorted_wrt (\<lambda>a b. createdAt b \<le> createdAt a) (loader Up st)"
    by (simp add: loader_Up sorted_wrt_rev sorted_map)
next
  let ?T1 = "\<lparr>ticket_id = gen_id g1, title = s1, description = f1 ''description'',
      status = ''OPEN'', inquiry = autoInquiry s1, createdAt = gen_time g1\<rparr>"
  let ?T2 = "\<lparr>ticket_id = gen_id g2, title = s2, description = f2 ''description'',
      status = ''OPEN'', inquiry = autoInquiry s2, createdAt = gen_time g2\<rparr>"
  assume a: "\<not> own_branch (f1 ''intent'') \<and> \<not> own_branch (f2 ''intent'')
      \<and> f1 ''title'' = Some s1 \<and> s1 \<noteq> [] \<and> f2 ''title'' = Some s2 \<and> s2 \<noteq> []
      \<and> gen_id g1 \<noteq> gen_id g2 \<and> gen_time g1 < gen_time g2"
  then have one: "action Up g1 f1 [] = (Inr Success, [] @ [?T1])"
    by (intro create_row) simp_all
  have "\<not> list_ex (has_id (gen_id g2)) [?T1]"
    using a by (simp add: has_id_def)
  then have two: "action Up g2 f2 [?T1] = (Inr Success, [?T1] @ [?T2])"
    using a by (intro create_row) simp_all
  have "run [(Up, g1, f1), (Up, g2, f2)] [] = [?T1, ?T2]"
    using one two by simp
  then show "loader Up (run [(Up, g1, f1), (Up, g2, f2)] []) = [?T2, ?T1]"
    using a by (simp add: loader_Up)
qed

theorem list_newest_first_witness:
  "\<not> own_branch (create_form ''Login issue'' ''intent'')
   \<and> \<not> own_branch (create_form ''Refund my order please'' ''intent'')
   \<and> create_form ''Login issue'' ''title'' = Some ''Login issue''
   \<and> create_form ''Refund my order please'' ''title'' = Some ''Refund my order please''
   \<and> gen_id next_row \<noteq> gen_id later_row \<and> gen_time next_row < gen_time later_row
   \<and> loader Up (run [(Up, next_row, create_form ''Login issue''),
                      (Up, later_row, create_form ''Refund my order please'')] []) =
      [\<lparr>ticket_id = ''t4'', title = ''Refund my order please'', description = None,
         status = ''OPEN'', inquiry = ''Sales'', createdAt = 12\<rparr>,
       \<lparr>ticket_id = ''t3'', title = ''Login issue'', description = None,
         status = ''OPEN'', inquiry = ''Technical'', createdAt = 9\<rparr>]
   \<and> loader Up [ticket_open, ticket_done] = [ticket_done, ticket_open]"
proof -
  have h1: "\<not> own_branch (create_form ''Login issue'' ''intent'')"
    by (simp add: create_form_def own_branch_def)
  have h2: "\<not> own_branch (create_form ''Refund my order please'' ''intent'')"
    by (simp add: create_form_def own_branch_def)
  have h3: "create_form ''Login issue'' ''title'' = Some ''Login issue''"
    by (simp add: create_form_def)
  have h4: "create_form ''Refund my order please'' ''title'' = Some ''Refund my order please''"
    by (simp add: create_form_def)
  have h5: "gen_id next_row \<noteq> gen_id later_row \<and> gen_time next_row < gen_time later_row"
    by (simp add: next_row_def later_row_def)
  have h6: "autoInquiry ''Login issue'' = ''Technical''
      \<and> autoInquiry ''Refund my order please'' = ''Sales''"
    by code_simp
  have h7: "create_form ''Login issue'' ''description'' = None
      \<and> create_form ''Refund my order please'' ''description'' = None"
    by (simp add: create_form_def)
  have h8: "gen_id next_row = ''t3'' \<and> gen_time next_row = 9
      \<and> gen_id later_row = ''t4'' \<and> gen_time later_row = 12"
    by (simp add: next_row_def later_row_def)
  have h9: "loader Up [ticket_open, ticket_done] = [ticket_done, ticket_open]"
    by code_simp
  show ?thesis
    using h1 h2 h3 h4 h5 h6 h7 h8 h9
      list_newest_first [where ?f1.0 = "create_form ''Login issue''"
        and ?f2.0 = "create_form ''Refund my order please''"
        and ?s1.0 = "''Login issue''" and ?s2.0 = "''Refund my order please''"
        and ?g1.0 = next_row and ?g2.0 = later_row and st = "[ticket_open, ticket_done]"]
    by simp
qed

text \<open>
  C7. When the read fails, the loader returns the empty list and no error.
\<close>

theorem list_fail_soft:
  "loader Down st = [] \<and> (\<forall>l e. db_findMany l Desc st = Inl e \<longrightarrow> loader l st = [])"
  by (simp add: loader_def db_findMany_def)

theorem list_fail_soft_witness:
  "db_findMany Down Desc
     [\<lparr>ticket_id = ''t1'', title = ''Login issue'', description = None, status = ''OPEN'',
        inquiry = ''Technical'', createdAt = 5\<rparr>] = Inl PersistenceError
   \<and> loader Down
     [\<lparr>ticket_id = ''t1'', title = ''Login issue'', description = None, status = ''OPEN'',
        inquiry = ''Technical'', createdAt = 5\<rparr>] = []"
proof -
  have h: "db_findMany Down Desc
     [\<lparr>ticket_id = ''t1'', title = ''Login issue'', description = None, status = ''OPEN'',
        inquiry = ''Technical'', createdAt = 5\<rparr>] = Inl PersistenceError"
    by (simp add: db_findMany_def)
  show ?thesis
    using h list_fail_soft [where st = "[\<lparr>ticket_id = ''t1'', title = ''Login issue'',
      description = None, status = ''OPEN'', inquiry = ''Technical'', createdAt = 5\<rparr>]"]
    by blast
qed

end
